theory Spec2Isabelle
  imports Complex_Main "HOL-Library.Char_ord" "HOL-Library.List_Lexorder"
    "HOL-Library.Product_Lexorder" "HOL-Library.Multiset"
begin

section \<open>Badge-access analysis (analyze_badges.py)\<close>

text \<open>
  A shallow embedding of the three analyses of \<^verbatim>\<open>analyze_badges.py\<close>:
  \<^verbatim>\<open>detect_impossible_travel\<close>, \<^verbatim>\<open>detect_curious_users\<close> and \<^verbatim>\<open>room_typing\<close>.

  A data frame is the list of its rows, in frame order. The columns \<^verbatim>\<open>user_id\<close>,
  \<^verbatim>\<open>location_id\<close>, \<^verbatim>\<open>room_id\<close> and \<^verbatim>\<open>timestamp\<close> hold a string in every row; the column
  \<^verbatim>\<open>success\<close> may be missing from a record. The empty list is the frame that
  \<^verbatim>\<open>read_jsonl\<close> builds from a log without records, \<^verbatim>\<open>pd.DataFrame([])\<close>, which has no
  columns: there each analysis raises.

  Library routines are taken as parameters where the source only calls them:
  \<^item> \<^verbatim>\<open>isoparse\<close>: dateutil's \<^verbatim>\<open>parser.isoparse\<close>, \<open>None\<close> where it raises \<^verbatim>\<open>ValueError\<close>;
  \<^item> \<^verbatim>\<open>to_hour\<close>: the column \<^verbatim>\<open>pd.to_datetime(..., format='mixed', errors='coerce').dt.hour\<close>
    of a timestamp column, with \<open>None\<close> where a timestamp is coerced to \<^verbatim>\<open>NaT\<close>, or the
    exception the expression raises on the column as a whole;
  \<^item> \<^verbatim>\<open>indexer\<close>: the row positions that the single-column
    \<^verbatim>\<open>sort_values(col, ascending=False)\<close> computes from the key column. Its default
    algorithm is numpy's quicksort, which promises no order among equal keys.

  Floating-point columns are modelled by exact rationals, and a cell that pandas fills
  with \<^verbatim>\<open>NaN\<close> by \<open>None\<close>.
\<close>

subsection \<open>Data model\<close>

datatype pyval = PyNone | PyNaN | PyBool bool | PyInt int | PyStr string

datatype error = ParseError | KeyError | ValueError

record event =
  user_id :: string
  location_id :: string
  room_id :: string
  timestamp :: string
  success :: "pyval option"

text \<open>
  A parsed \<^verbatim>\<open>datetime\<close>: the wall-clock reading in microseconds since
  1970-01-01T00:00:00, and the UTC offset in seconds when the string carried one.
\<close>

record datetime =
  naive_micros :: int
  tzinfo :: "int option"

record travel_finding =
  f_user_id :: string
  first_location :: "string option"
  second_location :: string
  first_ts :: "int option"
  second_ts :: int
  delta_secs :: "int option"

record curious_user =
  c_user_id :: string
  attempts :: nat

record room_profile =
  rp_room_id :: string
  visits :: nat
  median_dwell_mins :: "rat option"
  label :: string

subsection \<open>Timestamp normalisation\<close>

definition FOUR_HOURS_SECS :: int where
  "FOUR_HOURS_SECS = 4 * 60 * 60"

text \<open>
  \<^verbatim>\<open>dt.timestamp()\<close> of an aware \<^verbatim>\<open>datetime\<close> is the true division of the microseconds since
  the epoch by \<open>10\<^sup>6\<close>, two Python integers: the binary64 number nearest to the quotient,
  ties to even. A binary64 number is the rational it denotes. The quotients of
  timestamps are far from the subnormal and the overflow range, which are left out.
\<close>

text \<open>The floor of the binary logarithm of a positive integer.\<close>

function ilog2 :: "int \<Rightarrow> nat" where
  "ilog2 n = (if n < 2 then 0 else Suc (ilog2 (n div 2)))"
  by pat_completeness auto
termination
  by (relation "measure nat") auto

declare ilog2.simps [simp del]

text \<open>The binary exponent of \<open>a / b\<close> for positive \<open>a\<close> and \<open>b\<close>: the floor of its logarithm.\<close>

definition binary64_exponent :: "int \<Rightarrow> int \<Rightarrow> int" where
  "binary64_exponent a b =
     (if b \<le> a then int (ilog2 (a div b))
      else - int (Suc (ilog2 ((b + a - 1) div a - 1))))"

text \<open>The integer nearest to \<open>p / q\<close> for positive \<open>q\<close>, ties to the even one.\<close>

definition round_half_even :: "int \<Rightarrow> int \<Rightarrow> int" where
  "round_half_even p q =
     (let f = p div q; r = p mod q
      in if 2 * r < q then f
         else if q < 2 * r then f + 1
         else if even f then f else f + 1)"

text \<open>
  \<^verbatim>\<open>a / b\<close> on integers with positive \<open>b\<close>: the quotient rounded to 53 significant bits.
\<close>

definition true_divide :: "int \<Rightarrow> int \<Rightarrow> rat" where
  "true_divide a b =
     (if a = 0 then 0
      else
        (let k = binary64_exponent \<bar>a\<bar> b - 52;
             m = (if 0 \<le> k then round_half_even \<bar>a\<bar> (b * 2 ^ nat k)
                  else round_half_even (\<bar>a\<bar> * 2 ^ nat (- k)) b);
             ulp = (if 0 \<le> k then 2 ^ nat k else 1 / 2 ^ nat (- k))
         in of_int (sgn a) * of_int m * ulp))"

text \<open>\<^verbatim>\<open>int(x)\<close> on a float: truncation towards zero.\<close>

definition int_of_float :: "rat \<Rightarrow> int" where
  "int_of_float x = (if 0 \<le> x then \<lfloor>x\<rfloor> else - \<lfloor>- x\<rfloor>)"

text \<open>\<^verbatim>\<open>int(dt.timestamp())\<close>, on the microseconds since the epoch.\<close>

definition int_timestamp :: "int \<Rightarrow> int" where
  "int_timestamp us = int_of_float (true_divide us 1000000)"

definition iso_to_epoch :: "(string \<Rightarrow> datetime option) \<Rightarrow> string \<Rightarrow> error + int" where
  "iso_to_epoch isoparse ts =
     (case isoparse ts of
        None \<Rightarrow> Inl ParseError
      | Some dt \<Rightarrow>
          (let dt = (if tzinfo dt = None then dt\<lparr>tzinfo := Some 0\<rparr> else dt);
               off = (case tzinfo dt of None \<Rightarrow> 0 | Some s \<Rightarrow> s)
           in Inr (int_timestamp (naive_micros dt - off * 1000000))))"

text \<open>\<^verbatim>\<open>d["timestamp"].apply(iso_to_epoch)\<close>: the first exception ends the call.\<close>

fun apply_iso_to_epoch :: "(string \<Rightarrow> datetime option) \<Rightarrow> string list \<Rightarrow> error + int list" where
  "apply_iso_to_epoch isoparse [] = Inr []"
| "apply_iso_to_epoch isoparse (ts # tss) =
     (case iso_to_epoch isoparse ts of
        Inl e \<Rightarrow> Inl e
      | Inr x \<Rightarrow>
          (case apply_iso_to_epoch isoparse tss of
             Inl e \<Rightarrow> Inl e
           | Inr xs \<Rightarrow> Inr (x # xs)))"

subsection \<open>The parser on a date, a separator and a time of day\<close>

text \<open>
  \<^verbatim>\<open>parser.isoparse\<close> is the method of dateutil's \<^verbatim>\<open>isoparser\<close> built with \<^verbatim>\<open>sep=None\<close>, which
  accepts any single character between the date and the time of day.
  \<open>isoparse_sep_none\<close> is \<^verbatim>\<open>isoparse\<close> on the strings of the shape \<^verbatim>\<open>yyyy-mm-dd\<close>, one
  character, \<^verbatim>\<open>hh:mm:ss\<close> with an hour below 24: where it returns a datetime, \<^verbatim>\<open>isoparse\<close>
  returns that datetime, without an offset. On every other string it returns \<open>None\<close>,
  also on those \<^verbatim>\<open>isoparse\<close> reads in another of its formats, so it stands for
  \<^verbatim>\<open>isoparse\<close> only where it accepts.
\<close>

text \<open>The value of a decimal digit, and of a string of digits.\<close>

definition digit_value :: "char \<Rightarrow> int option" where
  "digit_value c =
     (if CHR ''0'' \<le> c \<and> c \<le> CHR ''9'' then Some (int (of_char c) - 48) else None)"

fun parse_digits :: "int \<Rightarrow> string \<Rightarrow> int option" where
  "parse_digits acc [] = Some acc"
| "parse_digits acc (c # cs) =
     (case digit_value c of
        None \<Rightarrow> None
      | Some v \<Rightarrow> parse_digits (10 * acc + v) cs)"

text \<open>
  The proleptic Gregorian ordinal of a date as \<^verbatim>\<open>datetime\<close> counts it: day 1 is 0001-01-01,
  and 1970-01-01 is day 719163.
\<close>

definition is_leap :: "int \<Rightarrow> bool" where
  "is_leap y \<longleftrightarrow> (y mod 4 = 0 \<and> y mod 100 \<noteq> 0) \<or> y mod 400 = 0"

definition days_in_month :: "int \<Rightarrow> int \<Rightarrow> int" where
  "days_in_month y m =
     (if m = 2 then (if is_leap y then 29 else 28)
      else if m = 4 \<or> m = 6 \<or> m = 9 \<or> m = 11 then 30 else 31)"

definition ymd2ord :: "int \<Rightarrow> int \<Rightarrow> int \<Rightarrow> int" where
  "ymd2ord y m d =
     (let y1 = y - 1
      in y1 * 365 + y1 div 4 - y1 div 100 + y1 div 400
         + sum_list (map (days_in_month y) [1..m - 1]) + d)"

text \<open>The character at position 10, between the date and the time of day, is not examined.\<close>

definition isoparse_sep_none :: "string \<Rightarrow> datetime option" where
  "isoparse_sep_none ts =
     (if length ts = 19 \<and> ts ! 4 = CHR ''-'' \<and> ts ! 7 = CHR ''-''
         \<and> ts ! 13 = CHR '':'' \<and> ts ! 16 = CHR '':''
      then
        (case (parse_digits 0 (take 4 ts), parse_digits 0 (take 2 (drop 5 ts)),
               parse_digits 0 (take 2 (drop 8 ts)), parse_digits 0 (take 2 (drop 11 ts)),
               parse_digits 0 (take 2 (drop 14 ts)), parse_digits 0 (take 2 (drop 17 ts))) of
           (Some y, Some m, Some d, Some h, Some mi, Some s) \<Rightarrow>
             if 1 \<le> y \<and> 1 \<le> m \<and> m \<le> 12 \<and> 1 \<le> d \<and> d \<le> days_in_month y m
                \<and> h < 24 \<and> mi < 60 \<and> s < 60
             then Some \<lparr>naive_micros =
                          ((ymd2ord y m d - 719163) * 86400 + h * 3600 + mi * 60 + s) * 1000000,
                        tzinfo = None\<rparr>
             else None
         | _ \<Rightarrow> None)
      else None)"

subsection \<open>Sorting and per-group shifts\<close>

text \<open>
  \<^verbatim>\<open>d.sort_values(["user_id", "epoch"])\<close>: a sort on several columns does not take the
  \<^verbatim>\<open>kind\<close> argument and goes through numpy's \<^verbatim>\<open>lexsort\<close>, a stable sort; the rows come out
  ascending by user, then by epoch. A row is an event with its epoch. The sort is given
  by the insertion sort \<open>sort_key\<close>, and strings are ordered as Python orders them, by
  code point (the order of the bytes of their UTF-8 encoding).
\<close>

definition sort_values_user_epoch :: "(event \<times> int) list \<Rightarrow> (event \<times> int) list" where
  "sort_values_user_epoch d = sort_key (\<lambda>r. (user_id (fst r), snd r)) d"

text \<open>
  \<^verbatim>\<open>d.groupby(key)[col].shift(1)\<close>: each row gets the value of the row before it in its
  group, in frame order; the first row of a group gets \<^verbatim>\<open>NaN\<close>. \<open>seen\<close> holds the rows
  already passed, the latest first.
\<close>

fun groupby_shift_prev :: "('r \<Rightarrow> 'k) \<Rightarrow> ('r \<Rightarrow> 'v) \<Rightarrow> 'r list \<Rightarrow> 'r list \<Rightarrow> 'v option list" where
  "groupby_shift_prev key col seen [] = []"
| "groupby_shift_prev key col seen (r # rs) =
     map_option col (find (\<lambda>p. key p = key r) seen) # groupby_shift_prev key col (r # seen) rs"

text \<open>\<^verbatim>\<open>d.groupby(key)[col].shift(-1)\<close>: the value of the next row of the same group.\<close>

fun groupby_shift_next :: "('r \<Rightarrow> 'k) \<Rightarrow> ('r \<Rightarrow> 'v) \<Rightarrow> 'r list \<Rightarrow> 'v option list" where
  "groupby_shift_next key col [] = []"
| "groupby_shift_next key col (r # rs) =
     map_option col (find (\<lambda>p. key p = key r) rs) # groupby_shift_next key col rs"

text \<open>The group keys of \<^verbatim>\<open>groupby\<close> (\<^verbatim>\<open>sort=True\<close>): each key once, ascending.\<close>

definition groupby_keys :: "('r \<Rightarrow> string) \<Rightarrow> 'r list \<Rightarrow> string list" where
  "groupby_keys key rows = sort (remdups (map key rows))"

text \<open>
  \<^verbatim>\<open>sort_values(col, ascending=False)\<close> on one column: the rows are taken at the positions
  the indexer returns for the key column.
\<close>

definition sort_values_desc :: "(nat list \<Rightarrow> nat list) \<Rightarrow> ('r \<Rightarrow> nat) \<Rightarrow> 'r list \<Rightarrow> 'r list" where
  "sort_values_desc indexer col rows = map (\<lambda>i. rows ! i) (indexer (map col rows))"

text \<open>
  What every sorting routine guarantees of the indexer: it is a permutation of the row
  positions, and the keys read in its order are descending.
\<close>

definition descending_indexer :: "(nat list \<Rightarrow> nat list) \<Rightarrow> bool" where
  "descending_indexer indexer \<longleftrightarrow>
     (\<forall>ks. distinct (indexer ks) \<and> set (indexer ks) = {0..<length ks}
        \<and> sorted (rev (map (\<lambda>i. ks ! i) (indexer ks))))"

text \<open>One such routine, which keeps equal keys in frame order.\<close>

definition stable_indexer :: "nat list \<Rightarrow> nat list" where
  "stable_indexer ks = rev (sort_key (\<lambda>i. ks ! i) (rev [0..<length ks]))"

subsection \<open>Impossible travel\<close>

text \<open>The mask of line 62, on a row with its \<^verbatim>\<open>prev_loc\<close> and \<^verbatim>\<open>prev_epoch\<close> cells.\<close>

definition travel_mask :: "(event \<times> int) \<times> string option \<times> int option \<Rightarrow> bool" where
  "travel_mask x =
     (case x of (r, prev_loc, prev_epoch) \<Rightarrow>
        prev_loc \<noteq> None
        \<and> Some (location_id (fst r)) \<noteq> prev_loc
        \<and> (case prev_epoch of None \<Rightarrow> False | Some p \<Rightarrow> snd r - p < FOUR_HOURS_SECS))"

definition travel_row :: "(event \<times> int) \<times> string option \<times> int option \<Rightarrow> travel_finding" where
  "travel_row x =
     (case x of (r, prev_loc, prev_epoch) \<Rightarrow>
        \<lparr>f_user_id = user_id (fst r),
         first_location = prev_loc,
         second_location = location_id (fst r),
         first_ts = prev_epoch,
         second_ts = snd r,
         delta_secs = map_option (\<lambda>p. snd r - p) prev_epoch\<rparr>)"

definition detect_impossible_travel ::
  "(string \<Rightarrow> datetime option) \<Rightarrow> event list \<Rightarrow> error + travel_finding list" where
  "detect_impossible_travel isoparse df =
     (if df = [] then Inl KeyError
      else case apply_iso_to_epoch isoparse (map timestamp df) of
        Inl e \<Rightarrow> Inl e
      | Inr epochs \<Rightarrow>
          (let d = sort_values_user_epoch (zip df epochs);
               prev_loc = groupby_shift_prev (\<lambda>r. user_id (fst r)) (\<lambda>r. location_id (fst r)) [] d;
               prev_epoch = groupby_shift_prev (\<lambda>r. user_id (fst r)) snd [] d;
               res = filter travel_mask (zip d (zip prev_loc prev_epoch))
           in Inr (map travel_row res)))"

subsection \<open>Curious users\<close>

text \<open>
  \<^verbatim>\<open>row.get("success", True)\<close>: the cell of the row. When no record of the log has the key
  the frame has no such column and the default is returned; when some record has it, a
  record without it holds \<^verbatim>\<open>NaN\<close>.
\<close>

definition row_get_success :: "event list \<Rightarrow> event \<Rightarrow> pyval" where
  "row_get_success df row =
     (case success row of
        Some v \<Rightarrow> v
      | None \<Rightarrow> if list_all (\<lambda>e. success e = None) df then PyBool True else PyNaN)"

text \<open>\<^verbatim>\<open>v is False\<close>: identity with the one object \<^verbatim>\<open>False\<close>.\<close>

definition is_False :: "pyval \<Rightarrow> bool" where
  "is_False v = (case v of PyBool b \<Rightarrow> \<not> b | _ \<Rightarrow> False)"

definition is_unauth :: "(string \<rightharpoonup> string set) \<Rightarrow> event list \<Rightarrow> event \<Rightarrow> bool" where
  "is_unauth allowed_map df row =
     (let rooms = (case allowed_map (user_id row) of None \<Rightarrow> {} | Some s \<Rightarrow> s)
      in is_False (row_get_success df row) \<and> room_id row \<notin> rooms)"

definition detect_curious_users ::
  "(nat list \<Rightarrow> nat list) \<Rightarrow> event list \<Rightarrow> (string \<rightharpoonup> string set) \<Rightarrow> error + curious_user list" where
  "detect_curious_users indexer df allowed_map =
     (if df = [] then Inl ValueError
      else
        (let d = map (\<lambda>row. (row, is_unauth allowed_map df row)) df;
             sel = filter snd d;
             cur = map (\<lambda>u. \<lparr>c_user_id = u,
                              attempts = sum_list (map (\<lambda>r. if snd r then 1 else 0)
                                           (filter (\<lambda>r. user_id (fst r) = u) sel))\<rparr>)
                       (groupby_keys (\<lambda>r. user_id (fst r)) sel)
         in Inr (sort_values_desc indexer attempts cur)))"

subsection \<open>Room typing\<close>

record visit =
  v_event :: event
  v_epoch :: int
  v_dwell :: rat

text \<open>\<^verbatim>\<open>Series.clip(lower, upper)\<close>.\<close>

definition clip :: "rat \<Rightarrow> rat \<Rightarrow> rat \<Rightarrow> rat" where
  "clip lower upper x = min upper (max lower x)"

text \<open>
  Lines 102 to 108. A row whose \<^verbatim>\<open>next_epoch\<close> is \<^verbatim>\<open>NaN\<close> has a \<^verbatim>\<open>NaN\<close> dwell and is
  removed by line 107, so the dwell is computed for the rows that stay.
\<close>

definition dwell_row :: "(event \<times> int) \<times> int option \<Rightarrow> visit option" where
  "dwell_row x =
     (case x of (r, next_epoch) \<Rightarrow>
        (case next_epoch of
           None \<Rightarrow> None
         | Some n \<Rightarrow>
             Some \<lparr>v_event = fst r, v_epoch = snd r,
                   v_dwell = clip 0 240 (of_int (n - snd r) / 60)\<rparr>))"

definition dwell_frame ::
  "(string \<Rightarrow> datetime option) \<Rightarrow> event list \<Rightarrow> error + visit list" where
  "dwell_frame isoparse df =
     (if df = [] then Inl KeyError
      else case apply_iso_to_epoch isoparse (map timestamp df) of
        Inl e \<Rightarrow> Inl e
      | Inr epochs \<Rightarrow>
          (let d = sort_values_user_epoch (zip df epochs);
               next_epoch = groupby_shift_next (\<lambda>r. user_id (fst r)) snd d
           in Inr (List.map_filter dwell_row (zip d next_epoch))))"

text \<open>The median of a column; \<^verbatim>\<open>NaN\<close> for a column without values.\<close>

definition median :: "rat list \<Rightarrow> rat option" where
  "median xs =
     (let s = sort xs; n = length s
      in if n = 0 then None
         else if odd n then Some (s ! (n div 2))
         else Some ((s ! (n div 2 - 1) + s ! (n div 2)) / 2))"

text \<open>Comparisons of a float that may be \<^verbatim>\<open>NaN\<close> with a constant: false on \<^verbatim>\<open>NaN\<close>.\<close>

definition flt_lt :: "rat option \<Rightarrow> rat \<Rightarrow> bool" where
  "flt_lt m c = (case m of None \<Rightarrow> False | Some x \<Rightarrow> x < c)"

definition flt_ge :: "rat option \<Rightarrow> rat \<Rightarrow> bool" where
  "flt_ge m c = (case m of None \<Rightarrow> False | Some x \<Rightarrow> c \<le> x)"

definition flt_between :: "rat \<Rightarrow> rat option \<Rightarrow> rat \<Rightarrow> bool" where
  "flt_between lo m hi = (case m of None \<Rightarrow> False | Some x \<Rightarrow> lo \<le> x \<and> x \<le> hi)"

text \<open>
  \<^verbatim>\<open>label_row\<close>, on the median dwell of the row and its hour columns
  (\<open>r_get h\<close> is \<^verbatim>\<open>r.get(h, 0)\<close>).
\<close>

definition label_row :: "rat option \<Rightarrow> (nat \<Rightarrow> nat) \<Rightarrow> string" where
  "label_row med r_get =
     (let morning = sum_list (map r_get [7, 8, 9]);
          lunch = sum_list (map r_get [11, 12, 13]);
          eve = sum_list (map r_get [16, 17, 18, 19]);
          night = sum_list (map r_get [0, 1, 2, 3, 4, 5, 21, 22, 23]);
          label = ''Other/Office'';
          label = (if morning > lunch \<and> flt_lt med 15 then ''Lobby/Entry'' else label);
          label = (if flt_between 25 med 150 \<and> lunch > morning \<and> lunch > eve
                   then ''Conference/Meeting'' else label);
          label = (if flt_lt med 10 \<and> (morning + lunch + eve) > 50 \<and> night = 0
                   then ''Hallway/Break'' else label);
          label = (if flt_between 40 med 90 \<and> lunch > (morning + eve) \<and> lunch > 20
                   then ''Cafeteria'' else label);
          label = (if night > (morning + lunch + eve) \<and> flt_ge med 60
                   then ''Security/Overnight/Server'' else label)
      in label)"

text \<open>
  The rows are paired with the cells of the hour column of line 109, which has one cell
  for each row. The hour columns of a room after the pivot, \<^verbatim>\<open>fillna(0)\<close>, the reindexing to the columns
  0 to 23 and the left merge. A room none of whose rows has an hour is missing from the
  pivot and gets \<^verbatim>\<open>NaN\<close> in every hour column; every rule of \<^verbatim>\<open>label_row\<close> compares a sum
  of hour columns with \<open>>\<close> or \<open>==\<close>, which is false on \<^verbatim>\<open>NaN\<close> as it is on a row of
  zeros, so the counts of such a room are given as zeros.
\<close>

definition hour_count :: "(visit \<times> nat option) list \<Rightarrow> string \<Rightarrow> nat \<Rightarrow> nat" where
  "hour_count d room h =
     (if h < 24
      then length (filter (\<lambda>x. room_id (v_event (fst x)) = room \<and> snd x = Some h) d)
      else 0)"

definition room_typing ::
  "(string \<Rightarrow> datetime option) \<Rightarrow> (string list \<Rightarrow> error + nat option list)
     \<Rightarrow> (nat list \<Rightarrow> nat list) \<Rightarrow> event list \<Rightarrow> error + room_profile list" where
  "room_typing isoparse to_hour indexer df =
     (case dwell_frame isoparse df of
        Inl e \<Rightarrow> Inl e
      | Inr d \<Rightarrow>
          (case to_hour (map (\<lambda>v. timestamp (v_event v)) d) of
             Inl e \<Rightarrow> Inl e
           | Inr hour \<Rightarrow>
               (let agg = map (\<lambda>room.
                            (let g = filter (\<lambda>v. room_id (v_event v) = room) d
                             in \<lparr>rp_room_id = room,
                                 visits = length g,
                                 median_dwell_mins = median (map v_dwell g),
                                 label = label_row (median (map v_dwell g))
                                           (hour_count (zip d hour) room)\<rparr>))
                          (groupby_keys (\<lambda>v. room_id (v_event v)) d)
                in Inr (sort_values_desc indexer visits agg))))"

section \<open>Reference notions of the specification\<close>

text \<open>The consecutive pairs of a sequence, each as (previous, current).\<close>

definition consecutive_pairs :: "'a list \<Rightarrow> ('a \<times> 'a) list" where
  "consecutive_pairs xs = zip xs (tl xs)"

text \<open>
  The events of one user, ascending by epoch, ties in input order (sections 4.2 and 4.4,
  steps 1 and 2). A row is an event with its epoch.
\<close>

definition spec_per_user_sequence :: "string \<Rightarrow> (event \<times> int) list \<Rightarrow> (event \<times> int) list" where
  "spec_per_user_sequence u rows = sort_key snd (filter (\<lambda>r. user_id (fst r) = u) rows)"

text \<open>
  Section 4.2, step 3: a pair is flagged when the location differs from the previous
  event's location and the elapsed time is strictly less than 14400 seconds.
\<close>

definition spec_flagged_pair :: "(event \<times> int) \<times> (event \<times> int) \<Rightarrow> bool" where
  "spec_flagged_pair p =
     (case p of (a, b) \<Rightarrow>
        location_id (fst b) \<noteq> location_id (fst a) \<and> snd b - snd a < 14400)"

text \<open>The finding of a flagged pair: both locations, both instants, and their difference.\<close>

definition spec_pair_finding :: "(event \<times> int) \<times> (event \<times> int) \<Rightarrow> travel_finding" where
  "spec_pair_finding p =
     (case p of (a, b) \<Rightarrow>
        \<lparr>f_user_id = user_id (fst b),
         first_location = Some (location_id (fst a)),
         second_location = location_id (fst b),
         first_ts = Some (snd a),
         second_ts = snd b,
         delta_secs = Some (snd b - snd a)\<rparr>)"

text \<open>
  Section 4.4, steps 2 and 3: the time until the next event of the user in minutes,
  clipped to the interval from 0 to 240.
\<close>

definition spec_dwell :: "(event \<times> int) \<times> (event \<times> int) \<Rightarrow> rat" where
  "spec_dwell p =
     (case p of (a, b) \<Rightarrow>
        (let m = of_int (snd b - snd a) / 60
         in if m < 0 then 0 else if 240 < m then 240 else m))"

text \<open>
  Section 4.3: an unauthorized attempt is an event whose \<^verbatim>\<open>success\<close> is explicitly false and
  whose room is not in the allowed set of its user; a user absent from the table has the
  empty allowed set.
\<close>

definition spec_unauthorized_attempt :: "(string \<rightharpoonup> string set) \<Rightarrow> event \<Rightarrow> bool" where
  "spec_unauthorized_attempt allowed_map e \<longleftrightarrow>
     success e = Some (PyBool False)
     \<and> room_id e \<notin> (case allowed_map (user_id e) of None \<Rightarrow> {} | Some s \<Rightarrow> s)"

text \<open>The number of unauthorized attempts of a user in the log.\<close>

definition spec_attempt_count :: "(string \<rightharpoonup> string set) \<Rightarrow> event list \<Rightarrow> string \<Rightarrow> nat" where
  "spec_attempt_count allowed_map df u =
     length (filter (\<lambda>e. user_id e = u \<and> spec_unauthorized_attempt allowed_map e) df)"

text \<open>
  Section 4.4, step 7: the median dwell of a room and its traffic in the four hour
  buckets, the five rules in their order, and the label of the last rule that matches.
\<close>

record room_traffic =
  med :: "rat option"
  morning :: nat
  lunch :: nat
  eve :: nat
  night :: nat

definition spec_traffic_of :: "rat option \<Rightarrow> (nat \<Rightarrow> nat) \<Rightarrow> room_traffic" where
  "spec_traffic_of m r_get =
     \<lparr>med = m,
      morning = (\<Sum>h \<leftarrow> [7, 8, 9]. r_get h),
      lunch = (\<Sum>h \<leftarrow> [11, 12, 13]. r_get h),
      eve = (\<Sum>h \<leftarrow> [16, 17, 18, 19]. r_get h),
      night = (\<Sum>h \<leftarrow> [0, 1, 2, 3, 4, 5, 21, 22, 23]. r_get h)\<rparr>"

definition spec_labeling_rules :: "((room_traffic \<Rightarrow> bool) \<times> string) list" where
  "spec_labeling_rules =
     [(\<lambda>t. morning t > lunch t \<and> flt_lt (med t) 15, ''Lobby/Entry''),
      (\<lambda>t. flt_between 25 (med t) 150 \<and> lunch t > morning t \<and> lunch t > eve t,
         ''Conference/Meeting''),
      (\<lambda>t. flt_lt (med t) 10 \<and> morning t + lunch t + eve t > 50 \<and> night t = 0,
         ''Hallway/Break''),
      (\<lambda>t. flt_between 40 (med t) 90 \<and> lunch t > morning t + eve t \<and> lunch t > 20,
         ''Cafeteria''),
      (\<lambda>t. night t > morning t + lunch t + eve t \<and> flt_ge (med t) 60,
         ''Security/Overnight/Server'')]"

definition spec_last_match_wins :: "string \<Rightarrow> (('t \<Rightarrow> bool) \<times> string) list \<Rightarrow> 't \<Rightarrow> string" where
  "spec_last_match_wins fallback rules t =
     (case filter (\<lambda>rule. fst rule t) rules of
        [] \<Rightarrow> fallback
      | m # ms \<Rightarrow> snd (last (m # ms)))"

text \<open>
  ISO 8601 writes a date with a time of day in digits, the separators \<open>-\<close> and \<open>:\<close>, the
  decimal signs, the sign \<open>+\<close> and the designators \<open>T\<close>, \<open>W\<close> and \<open>Z\<close>. A string with any
  other character is not a valid ISO-8601 timestamp.
\<close>

definition iso8601_characters :: "string \<Rightarrow> bool" where
  "iso8601_characters ts = list_all (\<lambda>c. c \<in> set ''0123456789-:+.,TWZ'') ts"

section \<open>Example logs\<close>

text \<open>An event whose location and room are the same place.\<close>

definition mk_event :: "string \<Rightarrow> string \<Rightarrow> string \<Rightarrow> pyval option \<Rightarrow> event" where
  "mk_event u r t s = \<lparr>user_id = u, location_id = r, room_id = r, timestamp = t, success = s\<rparr>"

text \<open>
  A parser that accepts a few timestamps of 2024-01-01 and rejects every other string,
  and an hour column that reads the hour of these timestamps and coerces every other
  string.
\<close>

definition demo_isoparse :: "string \<Rightarrow> datetime option" where
  "demo_isoparse =
     map_of
       [(''2024-01-01T00:00:00'', \<lparr>naive_micros = 1704067200000000, tzinfo = None\<rparr>),
        (''2024-01-01T00:01:00'', \<lparr>naive_micros = 1704067260000000, tzinfo = None\<rparr>),
        (''2024-01-01T03:59:59'', \<lparr>naive_micros = 1704081599000000, tzinfo = None\<rparr>),
        (''2024-01-01T05:00:00+01:00'', \<lparr>naive_micros = 1704085200000000, tzinfo = Some 3600\<rparr>),
        (''2024-01-01T08:20:00'', \<lparr>naive_micros = 1704097200000000, tzinfo = None\<rparr>),
        (''2024-01-01T12:00:00'', \<lparr>naive_micros = 1704110400000000, tzinfo = None\<rparr>),
        (''2024-01-01T12:45:00'', \<lparr>naive_micros = 1704113100000000, tzinfo = None\<rparr>)]"

definition demo_to_hour :: "string list \<Rightarrow> error + nat option list" where
  "demo_to_hour tss =
     Inr (map (map_of
       [(''2024-01-01T00:00:00'', 0),
        (''2024-01-01T00:01:00'', 0),
        (''2024-01-01T03:59:59'', 3),
        (''2024-01-01T08:20:00'', 8),
        (''2024-01-01T12:00:00'', 12),
        (''2024-01-01T12:45:00'', 12)]) tss)"

text \<open>A permission table: \<^verbatim>\<open>U1\<close> may enter \<^verbatim>\<open>A\<close>, \<^verbatim>\<open>U2\<close> may enter \<^verbatim>\<open>Y\<close>.\<close>

definition demo_allowed :: "string \<rightharpoonup> string set" where
  "demo_allowed = [''U1'' \<mapsto> {''A''}, ''U2'' \<mapsto> {''Y''}]"

text \<open>
  \<^verbatim>\<open>U1\<close> changes location after 14399 seconds, \<^verbatim>\<open>U2\<close> after 14400 seconds, \<^verbatim>\<open>U3\<close> stays at
  one location.
\<close>

definition travel_log :: "event list" where
  "travel_log =
     [mk_event ''U2'' ''B'' ''2024-01-01T05:00:00+01:00'' None,
      mk_event ''U1'' ''A'' ''2024-01-01T00:00:00'' None,
      mk_event ''U3'' ''A'' ''2024-01-01T00:00:00'' None,
      mk_event ''U1'' ''B'' ''2024-01-01T03:59:59'' None,
      mk_event ''U2'' ''A'' ''2024-01-01T00:00:00'' None,
      mk_event ''U3'' ''A'' ''2024-01-01T00:01:00'' None]"

text \<open>
  \<^verbatim>\<open>U2\<close> stays 500 minutes in \<^verbatim>\<open>R3\<close>; room \<^verbatim>\<open>R9\<close> is only seen in a last event of a user.
\<close>

definition room_log :: "event list" where
  "room_log =
     [mk_event ''U2'' ''R9'' ''2024-01-01T08:20:00'' None,
      mk_event ''U1'' ''R1'' ''2024-01-01T00:00:00'' None,
      mk_event ''U1'' ''R1'' ''2024-01-01T03:59:59'' None,
      mk_event ''U2'' ''R3'' ''2024-01-01T00:00:00'' None,
      mk_event ''U1'' ''R2'' ''2024-01-01T00:01:00'' None]"

text \<open>Failed and successful accesses to allowed and disallowed rooms.\<close>

definition curious_log :: "event list" where
  "curious_log =
     [mk_event ''U2'' ''X'' ''2024-01-01T00:00:00'' (Some (PyBool False)),
      mk_event ''U1'' ''B'' ''2024-01-01T00:00:00'' (Some (PyBool False)),
      mk_event ''U3'' ''Z'' ''2024-01-01T00:01:00'' None,
      mk_event ''U1'' ''A'' ''2024-01-01T00:01:00'' (Some (PyBool False)),
      mk_event ''U1'' ''C'' ''2024-01-01T03:59:59'' (Some (PyBool True)),
      mk_event ''U4'' ''Q'' ''2024-01-01T00:00:00'' (Some (PyBool False)),
      mk_event ''U1'' ''B'' ''2024-01-01T12:00:00'' (Some (PyBool False))]"

text \<open>Ten users enter \<^verbatim>\<open>R1\<close> at 12:00 and are next seen 45 minutes later.\<close>

definition meeting_log :: "event list" where
  "meeting_log =
     concat (map (\<lambda>u. [mk_event u ''Out'' ''2024-01-01T12:45:00'' None,
                        mk_event u ''R1'' ''2024-01-01T12:00:00'' None])
       [''U0'', ''U1'', ''U2'', ''U3'', ''U4'', ''U5'', ''U6'', ''U7'', ''U8'', ''U9''])"

text \<open>
  The first timestamp has an \<open>x\<close> where ISO 8601 has the designator \<open>T\<close>.
\<close>

definition lenient_log :: "event list" where
  "lenient_log =
     [mk_event ''U1'' ''A'' ''2024-01-01x12:00:00'' None,
      mk_event ''U1'' ''B'' ''2024-01-01T12:45:00'' None]"

section \<open>Verified properties\<close>

subsection \<open>Per-group shifts and the sorted frame\<close>

lemma find_filter_conv:
  "find P xs = (case filter P xs of [] \<Rightarrow> None | x # _ \<Rightarrow> Some x)"
  by (induction xs) auto

lemma groupby_shift_next_group:
  "filter (\<lambda>x. key (fst x) = u) (zip rows (groupby_shift_next key col rows)) =
     (let s = filter (\<lambda>r. key r = u) rows in zip s (map (\<lambda>r. Some (col r)) (tl s) @ [None]))"
proof (induction rows)
  case Nil
  then show ?case by simp
next
  case (Cons r rs)
  show ?case
  proof (cases "key r = u")
    case False
    with Cons show ?thesis by simp
  next
    case True
    show ?thesis
    proof (cases "filter (\<lambda>r. key r = u) rs")
      case Nil
      with True Cons show ?thesis by (simp add: find_filter_conv Let_def)
    next
      case (Cons y ys)
      with True Cons.IH show ?thesis by (simp add: find_filter_conv Let_def)
    qed
  qed
qed

lemma groupby_shift_prev_group:
  "filter (\<lambda>x. key (fst x) = u)
      (zip rows (zip (groupby_shift_prev key c1 seen rows) (groupby_shift_prev key c2 seen rows))) =
     (let s = filter (\<lambda>r. key r = u) rows; p = find (\<lambda>p. key p = u) seen
      in zip s (zip (map_option c1 p # map (\<lambda>r. Some (c1 r)) s)
                    (map_option c2 p # map (\<lambda>r. Some (c2 r)) s)))"
proof (induction rows arbitrary: seen)
  case Nil
  then show ?case by simp
next
  case (Cons r rs)
  show ?case
  proof (cases "key r = u")
    case False
    then show ?thesis using Cons.IH [of "r # seen"] by (simp add: Let_def)
  next
    case True
    then show ?thesis using Cons.IH [of "r # seen"] by (simp add: Let_def)
  qed
qed

lemma insort_key_user_epoch:
  "\<forall>y \<in> set ys. k y = k x \<Longrightarrow>
     insort_key (\<lambda>r. (k r, e r)) x ys = insort_key e x ys"
  by (induction ys) auto

lemma sort_key_user_epoch:
  "\<forall>x \<in> set xs. k x = u \<Longrightarrow> sort_key (\<lambda>r. (k r, e r)) xs = sort_key e xs"
proof (induction xs)
  case Nil
  then show ?case by simp
next
  case (Cons x xs)
  then have "\<forall>y \<in> set (sort_key e xs). k y = k x" by simp
  then show ?case using Cons by (simp add: insort_key_user_epoch)
qed

lemma sorted_frame_group:
  "filter (\<lambda>r. user_id (fst r) = u) (sort_values_user_epoch d) =
     sort_key snd (filter (\<lambda>r. user_id (fst r) = u) d)"
  unfolding sort_values_user_epoch_def
  by (simp add: filter_sort sort_key_user_epoch [where u = u])

lemma apply_iso_to_epoch_length:
  "apply_iso_to_epoch isoparse tss = Inr xs \<Longrightarrow> length xs = length tss"
  by (induction tss arbitrary: xs) (auto split: sum.splits)

lemma consecutive_pairs_fst: "map fst (consecutive_pairs s) = butlast s"
  by (cases s) (simp_all add: consecutive_pairs_def map_fst_zip_take butlast_conv_take min_def)

subsection \<open>The descending sort of one column\<close>

lemma indexer_mset:
  assumes "descending_indexer indexer"
  shows "mset (sort_values_desc indexer col rows) = mset rows"
proof -
  let ?ix = "indexer (map col rows)"
  from assms have "distinct ?ix" and "set ?ix = {0..<length rows}"
    by (simp_all add: descending_indexer_def)
  then have "mset ?ix = mset [0..<length rows]"
    by (metis mset_set_set mset_upt)
  then have "mset (map (\<lambda>i. rows ! i) ?ix) = mset (map (\<lambda>i. rows ! i) [0..<length rows])"
    by (metis mset_map)
  then show ?thesis by (simp add: sort_values_desc_def map_nth)
qed

lemma indexer_set:
  "descending_indexer indexer \<Longrightarrow> set (sort_values_desc indexer col rows) = set rows"
  by (metis indexer_mset set_mset_mset)

lemma indexer_distinct:
  assumes "descending_indexer indexer"
  shows "distinct (map f (sort_values_desc indexer col rows)) = distinct (map f rows)"
proof -
  have "mset (map f (sort_values_desc indexer col rows)) = mset (map f rows)"
    by (simp add: indexer_mset [OF assms])
  then show ?thesis by (rule mset_eq_imp_distinct_iff)
qed

lemma indexer_descending:
  assumes "descending_indexer indexer"
  shows "sorted (rev (map col (sort_values_desc indexer col rows)))"
proof -
  let ?ix = "indexer (map col rows)"
  from assms have bound: "set ?ix = {0..<length rows}"
    and sorted: "sorted (rev (map (\<lambda>i. map col rows ! i) ?ix))"
    by (simp_all add: descending_indexer_def)
  have "map col (sort_values_desc indexer col rows) = map (\<lambda>i. map col rows ! i) ?ix"
    using bound by (auto simp: sort_values_desc_def)
  with sorted show ?thesis by simp
qed

lemma stable_indexer_descending: "descending_indexer stable_indexer"
  unfolding descending_indexer_def stable_indexer_def
  by (auto simp: rev_map [symmetric])

subsection \<open>Stability of the sort by user and epoch\<close>

text \<open>
  C5. Events of one user with equal epochs keep their input order in the frame sorted by
  user and epoch, which both \<^verbatim>\<open>detect_impossible_travel\<close> and \<^verbatim>\<open>room_typing\<close> shift over.
\<close>

theorem sort_values_user_epoch_stable:
  "filter (\<lambda>r. user_id (fst r) = u \<and> snd r = t) (sort_values_user_epoch d) =
     filter (\<lambda>r. user_id (fst r) = u \<and> snd r = t) d"
  unfolding sort_values_user_epoch_def
  using sort_key_stable [of "\<lambda>r. (user_id (fst r), snd r)" "(u, t)" d]
  by simp

theorem sort_values_user_epoch_stable_witness:
  "sort_values_user_epoch
     [(mk_event ''U2'' ''A'' ''t'' None, 5), (mk_event ''U1'' ''B'' ''t'' None, 7),
      (mk_event ''U1'' ''A'' ''t'' None, 7), (mk_event ''U1'' ''C'' ''t'' None, 3)] =
     [(mk_event ''U1'' ''C'' ''t'' None, 3), (mk_event ''U1'' ''B'' ''t'' None, 7),
      (mk_event ''U1'' ''A'' ''t'' None, 7), (mk_event ''U2'' ''A'' ''t'' None, 5)]
   \<and> filter (\<lambda>r. user_id (fst r) = ''U1'' \<and> snd r = 7)
       (sort_values_user_epoch
         [(mk_event ''U2'' ''A'' ''t'' None, 5), (mk_event ''U1'' ''B'' ''t'' None, 7),
          (mk_event ''U1'' ''A'' ''t'' None, 7), (mk_event ''U1'' ''C'' ''t'' None, 3)]) =
     [(mk_event ''U1'' ''B'' ''t'' None, 7), (mk_event ''U1'' ''A'' ''t'' None, 7)]"
proof -
  have run: "sort_values_user_epoch
     [(mk_event ''U2'' ''A'' ''t'' None, 5), (mk_event ''U1'' ''B'' ''t'' None, 7),
      (mk_event ''U1'' ''A'' ''t'' None, 7), (mk_event ''U1'' ''C'' ''t'' None, 3)] =
     [(mk_event ''U1'' ''C'' ''t'' None, 3), (mk_event ''U1'' ''B'' ''t'' None, 7),
      (mk_event ''U1'' ''A'' ''t'' None, 7), (mk_event ''U2'' ''A'' ''t'' None, 5)]"
    by code_simp
  have "filter (\<lambda>r. user_id (fst r) = ''U1'' \<and> snd r = 7)
       (sort_values_user_epoch
         [(mk_event ''U2'' ''A'' ''t'' None, 5), (mk_event ''U1'' ''B'' ''t'' None, 7),
          (mk_event ''U1'' ''A'' ''t'' None, 7), (mk_event ''U1'' ''C'' ''t'' None, 3)]) =
     [(mk_event ''U1'' ''B'' ''t'' None, 7), (mk_event ''U1'' ''A'' ''t'' None, 7)]"
    unfolding sort_values_user_epoch_stable by (simp add: mk_event_def)
  with run show ?thesis by blast
qed

subsection \<open>Epoch seconds\<close>

text \<open>
  The division rounds before \<^verbatim>\<open>int\<close> truncates: 999999 microseconds past a second are cut
  off in 2024, and are rounded up to the next second from the year 2514 on, where
  binary64 numbers are more than two microseconds apart.
\<close>

lemma int_timestamp_rounds:
  "int_timestamp 1704067200999999 = 1704067200 \<and> int_timestamp 17179869184999999 = 17179869185"
  by code_simp

subsection \<open>Timestamps that do not parse\<close>

lemma iso_to_epoch_error: "iso_to_epoch isoparse ts = Inl e \<Longrightarrow> e = ParseError"
  by (auto simp: iso_to_epoch_def Let_def split: option.splits)

lemma apply_iso_to_epoch_invalid:
  "ts \<in> set tss \<Longrightarrow> isoparse ts = None \<Longrightarrow> apply_iso_to_epoch isoparse tss = Inl ParseError"
proof (induction tss)
  case Nil
  then show ?case by simp
next
  case (Cons t tss)
  show ?case
  proof (cases "iso_to_epoch isoparse t")
    case (Inl e)
    then show ?thesis by (simp add: iso_to_epoch_error)
  next
    case (Inr x)
    with Cons.prems have "ts \<in> set tss" by (auto simp: iso_to_epoch_def)
    with Cons Inr show ?thesis by simp
  qed
qed

text \<open>
  C6, as amended. An event whose timestamp \<^verbatim>\<open>parser.isoparse\<close> rejects makes
  \<^verbatim>\<open>detect_impossible_travel\<close> and \<^verbatim>\<open>room_typing\<close> fail with the parse error, whatever the
  other events are: no result is produced from them, no default timestamp stands in, and
  the hour derivation with its coercion is not reached.
\<close>

theorem invalid_timestamp_is_fatal:
  assumes "e \<in> set df" and "isoparse (timestamp e) = None"
  shows "detect_impossible_travel isoparse df = Inl ParseError
         \<and> dwell_frame isoparse df = Inl ParseError
         \<and> room_typing isoparse to_hour indexer df = Inl ParseError"
proof -
  from assms have "apply_iso_to_epoch isoparse (map timestamp df) = Inl ParseError"
    by (intro apply_iso_to_epoch_invalid [of "timestamp e"]) auto
  moreover from assms(1) have "df \<noteq> []" by auto
  ultimately show ?thesis
    by (simp add: detect_impossible_travel_def dwell_frame_def room_typing_def)
qed

theorem invalid_timestamp_is_fatal_witness:
  "mk_event ''U1'' ''B'' ''yesterday'' None
     \<in> set (mk_event ''U1'' ''B'' ''yesterday'' None # travel_log)
   \<and> demo_isoparse (timestamp (mk_event ''U1'' ''B'' ''yesterday'' None)) = None
   \<and> detect_impossible_travel demo_isoparse
       (mk_event ''U1'' ''B'' ''yesterday'' None # travel_log) = Inl ParseError
   \<and> dwell_frame demo_isoparse
       (mk_event ''U1'' ''B'' ''yesterday'' None # travel_log) = Inl ParseError
   \<and> room_typing demo_isoparse demo_to_hour stable_indexer
       (mk_event ''U1'' ''B'' ''yesterday'' None # travel_log) = Inl ParseError"
proof -
  have mem: "mk_event ''U1'' ''B'' ''yesterday'' None
     \<in> set (mk_event ''U1'' ''B'' ''yesterday'' None # travel_log)"
    by simp
  have bad: "demo_isoparse (timestamp (mk_event ''U1'' ''B'' ''yesterday'' None)) = None"
    by code_simp
  from invalid_timestamp_is_fatal [where isoparse = demo_isoparse and to_hour = demo_to_hour
      and indexer = stable_indexer, OF mem bad] mem bad
  show ?thesis by blast
qed

text \<open>
  C6, as stated, fails: the parser decides, not ISO 8601. A timestamp with \<open>x\<close> between
  date and time is not valid ISO 8601, \<^verbatim>\<open>isoparse\<close> accepts it, and both analyses go on
  with the epoch it gives: a finding is made from it and a dwell computed from it.
\<close>

theorem invalid_timestamp_accepted_counterexample:
  "\<not> iso8601_characters ''2024-01-01x12:00:00''
   \<and> iso_to_epoch isoparse_sep_none ''2024-01-01x12:00:00'' = Inr 1704110400
   \<and> detect_impossible_travel isoparse_sep_none lenient_log =
       Inr [\<lparr>f_user_id = ''U1'', first_location = Some ''A'', second_location = ''B'',
             first_ts = Some 1704110400, second_ts = 1704113100, delta_secs = Some 2700\<rparr>]
   \<and> dwell_frame isoparse_sep_none lenient_log =
       Inr [\<lparr>v_event = mk_event ''U1'' ''A'' ''2024-01-01x12:00:00'' None,
             v_epoch = 1704110400, v_dwell = 45\<rparr>]"
proof -
  have a: "\<not> iso8601_characters ''2024-01-01x12:00:00''"
    by code_simp
  have b: "iso_to_epoch isoparse_sep_none ''2024-01-01x12:00:00'' = Inr 1704110400"
    by code_simp
  have c: "detect_impossible_travel isoparse_sep_none lenient_log =
       Inr [\<lparr>f_user_id = ''U1'', first_location = Some ''A'', second_location = ''B'',
             first_ts = Some 1704110400, second_ts = 1704113100, delta_secs = Some 2700\<rparr>]"
    by code_simp
  have d: "dwell_frame isoparse_sep_none lenient_log =
       Inr [\<lparr>v_event = mk_event ''U1'' ''A'' ''2024-01-01x12:00:00'' None,
             v_epoch = 1704110400, v_dwell = 45\<rparr>]"
    by code_simp
  from a b c d show ?thesis by blast
qed

subsection \<open>Impossible travel findings\<close>

lemma travel_mask_Some:
  "travel_mask (x, Some (location_id (fst a)), Some (snd a)) = spec_flagged_pair (a, x)"
  by (auto simp: travel_mask_def spec_flagged_pair_def FOUR_HOURS_SECS_def)

lemma travel_mask_None: "\<not> travel_mask (x, None, p)"
  by (simp add: travel_mask_def)

lemma travel_row_Some:
  "travel_row (x, Some (location_id (fst a)), Some (snd a)) = spec_pair_finding (a, x)"
  by (simp add: travel_row_def spec_pair_finding_def)

lemma travel_rows_after:
  "map travel_row (filter travel_mask
      (zip s (zip (Some (location_id (fst a)) # map (\<lambda>r. Some (location_id (fst r))) s)
                  (Some (snd a) # map (\<lambda>r. Some (snd r)) s)))) =
   map spec_pair_finding (filter spec_flagged_pair (zip (a # s) s))"
proof (induction s arbitrary: a)
  case Nil
  then show ?case by simp
next
  case (Cons x xs)
  show ?case using Cons.IH [of x]
    by (simp add: travel_mask_Some travel_row_Some)
qed

lemma travel_rows_group:
  "map travel_row (filter travel_mask
      (zip s (zip (None # map (\<lambda>r. Some (location_id (fst r))) s)
                  (None # map (\<lambda>r. Some (snd r)) s)))) =
   map spec_pair_finding (filter spec_flagged_pair (consecutive_pairs s))"
proof (cases s)
  case Nil
  then show ?thesis by (simp add: consecutive_pairs_def)
next
  case (Cons x xs)
  then show ?thesis using travel_rows_after [of xs x]
    by (simp add: consecutive_pairs_def travel_mask_None)
qed

text \<open>
  C1. For every user, the findings of \<^verbatim>\<open>detect_impossible_travel\<close> for that user are, in
  order, those of the consecutive pairs of the user's time-sorted events whose second
  location differs from the first and whose elapsed time is strictly below 14400
  seconds; a pair at one location or 14400 seconds or more apart gives none. A finding
  carries both locations, both epochs and their difference.
\<close>

theorem travel_findings_per_user:
  assumes "detect_impossible_travel isoparse df = Inr res"
  shows "\<exists>epochs. apply_iso_to_epoch isoparse (map timestamp df) = Inr epochs
           \<and> length epochs = length df
           \<and> (\<forall>u. filter (\<lambda>f. f_user_id f = u) res =
                  map spec_pair_finding (filter spec_flagged_pair
                    (consecutive_pairs (spec_per_user_sequence u (zip df epochs)))))"
proof -
  from assms obtain epochs where ep: "apply_iso_to_epoch isoparse (map timestamp df) = Inr epochs"
    by (auto simp: detect_impossible_travel_def split: if_splits sum.splits)
  define d where "d = sort_values_user_epoch (zip df epochs)"
  define z where "z = zip d (zip (groupby_shift_prev (\<lambda>r. user_id (fst r)) (\<lambda>r. location_id (fst r)) [] d)
                                 (groupby_shift_prev (\<lambda>r. user_id (fst r)) snd [] d))"
  from assms ep have res: "res = map travel_row (filter travel_mask z)"
    by (auto simp: detect_impossible_travel_def Let_def d_def z_def split: if_splits)
  have len: "length epochs = length df"
    using apply_iso_to_epoch_length [OF ep] by simp
  have "filter (\<lambda>f. f_user_id f = u) res =
          map spec_pair_finding (filter spec_flagged_pair
            (consecutive_pairs (spec_per_user_sequence u (zip df epochs))))" for u
  proof -
    have user: "f_user_id (travel_row x) = user_id (fst (fst x))" for x
      by (cases x) (simp add: travel_row_def)
    have "filter (\<lambda>f. f_user_id f = u) res =
            map travel_row (filter travel_mask (filter (\<lambda>x. user_id (fst (fst x)) = u) z))"
      unfolding res by (simp add: filter_map comp_def user conj_commute)
    also have "filter (\<lambda>x. user_id (fst (fst x)) = u) z =
        (let s = filter (\<lambda>r. user_id (fst r) = u) d
         in zip s (zip (None # map (\<lambda>r. Some (location_id (fst r))) s)
                       (None # map (\<lambda>r. Some (snd r)) s)))"
      unfolding z_def
      using groupby_shift_prev_group [of "\<lambda>r. user_id (fst r)" u d "\<lambda>r. location_id (fst r)" "[]" snd]
      by simp
    also have "filter (\<lambda>r. user_id (fst r) = u) d = spec_per_user_sequence u (zip df epochs)"
      unfolding d_def spec_per_user_sequence_def by (rule sorted_frame_group)
    finally show ?thesis
      using travel_rows_group [of "spec_per_user_sequence u (zip df epochs)"] by (simp add: Let_def)
  qed
  with ep len show ?thesis by blast
qed

theorem travel_findings_per_user_witness:
  "detect_impossible_travel demo_isoparse travel_log =
     Inr [\<lparr>f_user_id = ''U1'', first_location = Some ''A'', second_location = ''B'',
           first_ts = Some 1704067200, second_ts = 1704081599, delta_secs = Some 14399\<rparr>]
   \<and> (\<exists>epochs. apply_iso_to_epoch demo_isoparse (map timestamp travel_log) = Inr epochs
           \<and> length epochs = length travel_log
           \<and> (\<forall>u. filter (\<lambda>f. f_user_id f = u)
                   [\<lparr>f_user_id = ''U1'', first_location = Some ''A'', second_location = ''B'',
                     first_ts = Some 1704067200, second_ts = 1704081599,
                     delta_secs = Some 14399\<rparr>] =
                  map spec_pair_finding (filter spec_flagged_pair
                    (consecutive_pairs (spec_per_user_sequence u (zip travel_log epochs))))))"
proof -
  have run: "detect_impossible_travel demo_isoparse travel_log =
     Inr [\<lparr>f_user_id = ''U1'', first_location = Some ''A'', second_location = ''B'',
           first_ts = Some 1704067200, second_ts = 1704081599, delta_secs = Some 14399\<rparr>]"
    by code_simp
  show ?thesis using run travel_findings_per_user [OF run] by blast
qed

subsection \<open>Unauthorized attempts\<close>

lemma is_unauth_iff: "is_unauth allowed_map df e \<longleftrightarrow> spec_unauthorized_attempt allowed_map e"
  by (auto simp: is_unauth_def spec_unauthorized_attempt_def row_get_success_def is_False_def
      split: option.splits pyval.splits if_splits)

lemma curious_group_count:
  "sum_list (map (\<lambda>r. if snd r then 1 else 0)
      (filter (\<lambda>r. user_id (fst r) = u) (filter snd (map (\<lambda>row. (row, P row)) df)))) =
   length (filter (\<lambda>e. user_id e = u \<and> P e) df)"
  by (induction df) auto

lemma curious_group_keys:
  "groupby_keys (\<lambda>r. user_id (fst r)) (filter snd (map (\<lambda>row. (row, P row)) df)) =
     sort (remdups (map user_id (filter P df)))"
proof -
  have "map (\<lambda>r. user_id (fst r)) (filter snd (map (\<lambda>row. (row, P row)) df)) =
          map user_id (filter P df)"
    by (induction df) auto
  then show ?thesis by (simp add: groupby_keys_def)
qed

lemma curious_rows:
  assumes "df \<noteq> []"
  shows "detect_curious_users indexer df allowed_map =
     Inr (sort_values_desc indexer attempts
            (map (\<lambda>u. \<lparr>c_user_id = u, attempts = spec_attempt_count allowed_map df u\<rparr>)
               (sort (remdups (map user_id (filter (spec_unauthorized_attempt allowed_map) df))))))"
proof -
  have P: "is_unauth allowed_map df = spec_unauthorized_attempt allowed_map"
    by (rule ext) (rule is_unauth_iff)
  show ?thesis
    using assms
    by (simp add: detect_curious_users_def Let_def P curious_group_keys curious_group_count
        spec_attempt_count_def del: filter_filter)
qed

lemma curious_keys_set:
  "u \<in> set (sort (remdups (map user_id (filter (spec_unauthorized_attempt allowed_map) df))))
     \<longleftrightarrow> 0 < spec_attempt_count allowed_map df u"
  by (auto simp: spec_attempt_count_def filter_empty_conv)

lemma filter_eq_distinct:
  "distinct xs \<Longrightarrow> filter (\<lambda>k. k = u) xs = (if u \<in> set xs then [u] else [])"
  by (induction xs) auto

lemma sum_list_filter_mset:
  assumes "mset xs = mset ys"
  shows "sum_list (map f (filter P xs)) = (sum_list (map f (filter P ys)) :: nat)"
proof -
  have "mset (map f (filter P xs)) = mset (map f (filter P ys))"
    using assms by simp
  then show ?thesis by (metis sum_mset_sum_list)
qed

lemma unauthorized_attempt_success:
  "success e \<noteq> Some (PyBool False) \<Longrightarrow> \<not> spec_unauthorized_attempt allowed_map e"
  by (simp add: spec_unauthorized_attempt_def)

text \<open>
  C2. \<^verbatim>\<open>detect_curious_users\<close> counts an event as an unauthorized attempt exactly when its
  \<^verbatim>\<open>success\<close> field is the boolean false and its room is not in the allowed set of its
  user: the attempts reported for a user are the number of such events of that user. An
  event with \<^verbatim>\<open>success\<close> absent or true, or with an allowed room, is not counted.
\<close>

theorem unauthorized_attempt_counted:
  assumes "descending_indexer indexer"
    and "detect_curious_users indexer df allowed_map = Inr out"
  shows "(\<forall>e. is_unauth allowed_map df e \<longleftrightarrow>
              success e = Some (PyBool False)
              \<and> room_id e \<notin> (case allowed_map (user_id e) of None \<Rightarrow> {} | Some s \<Rightarrow> s))
         \<and> (\<forall>u. sum_list (map attempts (filter (\<lambda>c. c_user_id c = u) out)) =
                length (filter (\<lambda>e. user_id e = u \<and> success e = Some (PyBool False)
                  \<and> room_id e \<notin> (case allowed_map u of None \<Rightarrow> {} | Some s \<Rightarrow> s)) df))"
proof -
  define keys where
    "keys = sort (remdups (map user_id (filter (spec_unauthorized_attempt allowed_map) df)))"
  define cur where
    "cur = map (\<lambda>u. \<lparr>c_user_id = u, attempts = spec_attempt_count allowed_map df u\<rparr>) keys"
  from assms(2) have "df \<noteq> []"
    by (auto simp: detect_curious_users_def)
  from curious_rows [OF this, of indexer allowed_map] assms(2)
  have out: "out = sort_values_desc indexer attempts cur"
    by (simp add: cur_def keys_def)
  have a: "is_unauth allowed_map df e \<longleftrightarrow>
              success e = Some (PyBool False)
              \<and> room_id e \<notin> (case allowed_map (user_id e) of None \<Rightarrow> {} | Some s \<Rightarrow> s)" for e
    by (simp add: is_unauth_iff spec_unauthorized_attempt_def)
  have b: "sum_list (map attempts (filter (\<lambda>c. c_user_id c = u) out)) =
                length (filter (\<lambda>e. user_id e = u \<and> success e = Some (PyBool False)
                  \<and> room_id e \<notin> (case allowed_map u of None \<Rightarrow> {} | Some s \<Rightarrow> s)) df)" for u
  proof -
    have "sum_list (map attempts (filter (\<lambda>c. c_user_id c = u) out)) =
            sum_list (map attempts (filter (\<lambda>c. c_user_id c = u) cur))"
      unfolding out by (rule sum_list_filter_mset) (rule indexer_mset [OF assms(1)])
    also have "filter (\<lambda>c. c_user_id c = u) cur =
        map (\<lambda>u. \<lparr>c_user_id = u, attempts = spec_attempt_count allowed_map df u\<rparr>)
          (filter (\<lambda>k. k = u) keys)"
      by (simp add: cur_def filter_map comp_def)
    also have "filter (\<lambda>k. k = u) keys = (if u \<in> set keys then [u] else [])"
      by (rule filter_eq_distinct) (simp add: keys_def)
    finally have "sum_list (map attempts (filter (\<lambda>c. c_user_id c = u) out)) =
        spec_attempt_count allowed_map df u"
      using curious_keys_set [of u allowed_map df] by (simp add: keys_def)
    also have "spec_attempt_count allowed_map df u =
        length (filter (\<lambda>e. user_id e = u \<and> success e = Some (PyBool False)
                  \<and> room_id e \<notin> (case allowed_map u of None \<Rightarrow> {} | Some s \<Rightarrow> s)) df)"
      unfolding spec_attempt_count_def spec_unauthorized_attempt_def
      by (rule arg_cong [where f = length], rule filter_cong) auto
    finally show ?thesis .
  qed
  from a b show ?thesis by blast
qed

theorem unauthorized_attempt_counted_witness:
  "descending_indexer stable_indexer
   \<and> detect_curious_users stable_indexer curious_log demo_allowed =
       Inr [\<lparr>c_user_id = ''U1'', attempts = 2\<rparr>,
            \<lparr>c_user_id = ''U2'', attempts = 1\<rparr>,
            \<lparr>c_user_id = ''U4'', attempts = 1\<rparr>]
   \<and> length (filter (\<lambda>e. user_id e = ''U1'' \<and> success e = Some (PyBool False)
        \<and> room_id e \<notin> (case demo_allowed ''U1'' of None \<Rightarrow> {} | Some s \<Rightarrow> s)) curious_log) = 2
   \<and> \<not> is_unauth demo_allowed curious_log
         (mk_event ''U1'' ''A'' ''2024-01-01T00:01:00'' (Some (PyBool False)))
   \<and> \<not> is_unauth demo_allowed curious_log
         (mk_event ''U1'' ''C'' ''2024-01-01T03:59:59'' (Some (PyBool True)))
   \<and> \<not> is_unauth demo_allowed curious_log
         (mk_event ''U3'' ''Z'' ''2024-01-01T00:01:00'' None)
   \<and> is_unauth demo_allowed curious_log
         (mk_event ''U2'' ''X'' ''2024-01-01T00:00:00'' (Some (PyBool False)))"
proof -
  have run: "detect_curious_users stable_indexer curious_log demo_allowed =
       Inr [\<lparr>c_user_id = ''U1'', attempts = 2\<rparr>,
            \<lparr>c_user_id = ''U2'', attempts = 1\<rparr>,
            \<lparr>c_user_id = ''U4'', attempts = 1\<rparr>]"
    by code_simp
  note facts = unauthorized_attempt_counted [OF stable_indexer_descending run]
  from facts have "sum_list (map attempts (filter (\<lambda>c. c_user_id c = ''U1'')
         [\<lparr>c_user_id = ''U1'', attempts = 2\<rparr>,
          \<lparr>c_user_id = ''U2'', attempts = 1\<rparr>,
          \<lparr>c_user_id = ''U4'', attempts = 1\<rparr>])) =
      length (filter (\<lambda>e. user_id e = ''U1'' \<and> success e = Some (PyBool False)
        \<and> room_id e \<notin> (case demo_allowed ''U1'' of None \<Rightarrow> {} | Some s \<Rightarrow> s)) curious_log)"
    by blast
  then have n: "length (filter (\<lambda>e. user_id e = ''U1'' \<and> success e = Some (PyBool False)
        \<and> room_id e \<notin> (case demo_allowed ''U1'' of None \<Rightarrow> {} | Some s \<Rightarrow> s)) curious_log) = 2"
    by simp
  from facts have iff: "\<And>e. is_unauth demo_allowed curious_log e \<longleftrightarrow>
              success e = Some (PyBool False)
              \<and> room_id e \<notin> (case demo_allowed (user_id e) of None \<Rightarrow> {} | Some s \<Rightarrow> s)"
    by blast
  have e1: "\<not> is_unauth demo_allowed curious_log
         (mk_event ''U1'' ''A'' ''2024-01-01T00:01:00'' (Some (PyBool False)))"
    unfolding iff by (simp add: mk_event_def demo_allowed_def)
  have e2: "\<not> is_unauth demo_allowed curious_log
         (mk_event ''U1'' ''C'' ''2024-01-01T03:59:59'' (Some (PyBool True)))"
    unfolding iff by (simp add: mk_event_def demo_allowed_def)
  have e3: "\<not> is_unauth demo_allowed curious_log
         (mk_event ''U3'' ''Z'' ''2024-01-01T00:01:00'' None)"
    unfolding iff by (simp add: mk_event_def demo_allowed_def)
  have e4: "is_unauth demo_allowed curious_log
         (mk_event ''U2'' ''X'' ''2024-01-01T00:00:00'' (Some (PyBool False)))"
    unfolding iff by (simp add: mk_event_def demo_allowed_def)
  from stable_indexer_descending run n e1 e2 e3 e4 show ?thesis by blast
qed

text \<open>
  C7. The result of \<^verbatim>\<open>detect_curious_users\<close> has exactly one row for each user with at
  least one unauthorized attempt, holding the number of that user's attempts, no row for
  any other user, and the counts descend along the rows. The result is a function of the
  log, the permission table and the sorting routine.
\<close>

theorem curious_one_row_per_offender:
  assumes "descending_indexer indexer"
    and "detect_curious_users indexer df allowed_map = Inr out"
  shows "distinct (map c_user_id out)
         \<and> (\<forall>u. u \<in> set (map c_user_id out) \<longleftrightarrow> 0 < spec_attempt_count allowed_map df u)
         \<and> (\<forall>c \<in> set out. attempts c = spec_attempt_count allowed_map df (c_user_id c)
               \<and> 0 < attempts c)
         \<and> sorted (rev (map attempts out))"
proof -
  define keys where
    "keys = sort (remdups (map user_id (filter (spec_unauthorized_attempt allowed_map) df)))"
  define cur where
    "cur = map (\<lambda>u. \<lparr>c_user_id = u, attempts = spec_attempt_count allowed_map df u\<rparr>) keys"
  from assms(2) have "df \<noteq> []"
    by (auto simp: detect_curious_users_def)
  from curious_rows [OF this, of indexer allowed_map] assms(2)
  have out: "out = sort_values_desc indexer attempts cur"
    by (simp add: cur_def keys_def)
  have users: "map c_user_id cur = keys"
    by (simp add: cur_def comp_def)
  have "distinct keys" by (simp add: keys_def)
  with users have a: "distinct (map c_user_id out)"
    by (simp add: out indexer_distinct [OF assms(1)])
  have set_out: "set out = set cur"
    by (simp add: out indexer_set [OF assms(1)])
  have mem: "set (map c_user_id out) = set keys"
    using users set_out by (metis list.set_map)
  have b: "u \<in> set (map c_user_id out) \<longleftrightarrow> 0 < spec_attempt_count allowed_map df u" for u
    unfolding mem keys_def by (rule curious_keys_set)
  have c: "attempts c = spec_attempt_count allowed_map df (c_user_id c) \<and> 0 < attempts c"
    if "c \<in> set out" for c
  proof -
    from that set_out obtain u where "u \<in> set keys"
      and "c = \<lparr>c_user_id = u, attempts = spec_attempt_count allowed_map df u\<rparr>"
      by (auto simp: cur_def)
    then show ?thesis
      using curious_keys_set [of u allowed_map df] unfolding keys_def by simp
  qed
  have d: "sorted (rev (map attempts out))"
    unfolding out by (rule indexer_descending [OF assms(1)])
  from a b c d show ?thesis by blast
qed

theorem curious_one_row_per_offender_witness:
  "descending_indexer stable_indexer
   \<and> detect_curious_users stable_indexer curious_log demo_allowed =
       Inr [\<lparr>c_user_id = ''U1'', attempts = 2\<rparr>,
            \<lparr>c_user_id = ''U2'', attempts = 1\<rparr>,
            \<lparr>c_user_id = ''U4'', attempts = 1\<rparr>]
   \<and> spec_attempt_count demo_allowed curious_log ''U1'' = 2
   \<and> spec_attempt_count demo_allowed curious_log ''U3'' = 0
   \<and> ''U3'' \<notin> set (map c_user_id
        [\<lparr>c_user_id = ''U1'', attempts = 2\<rparr>,
         \<lparr>c_user_id = ''U2'', attempts = 1\<rparr>,
         \<lparr>c_user_id = ''U4'', attempts = 1\<rparr>])"
proof -
  have run: "detect_curious_users stable_indexer curious_log demo_allowed =
       Inr [\<lparr>c_user_id = ''U1'', attempts = 2\<rparr>,
            \<lparr>c_user_id = ''U2'', attempts = 1\<rparr>,
            \<lparr>c_user_id = ''U4'', attempts = 1\<rparr>]"
    by code_simp
  note facts = curious_one_row_per_offender [OF stable_indexer_descending run]
  from facts have users: "\<forall>u. u \<in> set (map c_user_id
        [\<lparr>c_user_id = ''U1'', attempts = 2\<rparr>,
         \<lparr>c_user_id = ''U2'', attempts = 1\<rparr>,
         \<lparr>c_user_id = ''U4'', attempts = 1\<rparr>]) \<longleftrightarrow>
        0 < spec_attempt_count demo_allowed curious_log u"
    by blast
  from facts have u1: "spec_attempt_count demo_allowed curious_log ''U1'' = 2"
    by simp
  from spec [OF users, of "''U3''"] have u3: "spec_attempt_count demo_allowed curious_log ''U3'' = 0"
    by simp
  from stable_indexer_descending run u1 u3 show ?thesis by simp
qed

text \<open>
  C10. An event whose \<^verbatim>\<open>success\<close> cell is anything but the boolean false (0, the string
  "false", \<^verbatim>\<open>None\<close>, \<^verbatim>\<open>NaN\<close>, or no cell) is not an unauthorized attempt, and such an
  event in the log does not change the result of \<^verbatim>\<open>detect_curious_users\<close>.
\<close>

theorem falsy_success_not_counted:
  assumes "success e \<noteq> Some (PyBool False)" and "xs @ ys \<noteq> []"
  shows "\<not> is_unauth allowed_map df e
         \<and> detect_curious_users indexer (xs @ e # ys) allowed_map =
             detect_curious_users indexer (xs @ ys) allowed_map
         \<and> \<not> is_False (PyInt 0) \<and> \<not> is_False (PyStr ''false'')
         \<and> \<not> is_False PyNone \<and> \<not> is_False PyNaN"
proof -
  note no = unauthorized_attempt_success [OF assms(1), of allowed_map]
  have a: "\<not> is_unauth allowed_map df e"
    using no by (simp add: is_unauth_iff)
  have count: "spec_attempt_count allowed_map (xs @ e # ys) = spec_attempt_count allowed_map (xs @ ys)"
    using no by (rule_tac ext) (simp add: spec_attempt_count_def)
  have sel: "filter (spec_unauthorized_attempt allowed_map) (xs @ e # ys) =
             filter (spec_unauthorized_attempt allowed_map) (xs @ ys)"
    using no by simp
  have "xs @ e # ys \<noteq> []" by simp
  from curious_rows [OF this, of indexer allowed_map] curious_rows [OF assms(2), of indexer allowed_map]
  have b: "detect_curious_users indexer (xs @ e # ys) allowed_map =
             detect_curious_users indexer (xs @ ys) allowed_map"
    by (simp only: count sel)
  have c: "\<not> is_False (PyInt 0) \<and> \<not> is_False (PyStr ''false'')
         \<and> \<not> is_False PyNone \<and> \<not> is_False PyNaN"
    by (simp add: is_False_def)
  from a b c show ?thesis by blast
qed

theorem falsy_success_not_counted_witness:
  "success (mk_event ''U2'' ''X'' ''2024-01-01T00:01:00'' (Some (PyInt 0))) \<noteq> Some (PyBool False)
   \<and> [] @ curious_log \<noteq> []
   \<and> detect_curious_users stable_indexer
       ([] @ mk_event ''U2'' ''X'' ''2024-01-01T00:01:00'' (Some (PyInt 0)) # curious_log)
       demo_allowed =
     detect_curious_users stable_indexer ([] @ curious_log) demo_allowed
   \<and> detect_curious_users stable_indexer ([] @ curious_log) demo_allowed =
       Inr [\<lparr>c_user_id = ''U1'', attempts = 2\<rparr>,
            \<lparr>c_user_id = ''U2'', attempts = 1\<rparr>,
            \<lparr>c_user_id = ''U4'', attempts = 1\<rparr>]"
proof -
  have h1: "success (mk_event ''U2'' ''X'' ''2024-01-01T00:01:00'' (Some (PyInt 0)))
      \<noteq> Some (PyBool False)"
    by (simp add: mk_event_def)
  have h2: "[] @ curious_log \<noteq> []"
    by (simp add: curious_log_def)
  have run: "detect_curious_users stable_indexer ([] @ curious_log) demo_allowed =
       Inr [\<lparr>c_user_id = ''U1'', attempts = 2\<rparr>,
            \<lparr>c_user_id = ''U2'', attempts = 1\<rparr>,
            \<lparr>c_user_id = ''U4'', attempts = 1\<rparr>]"
    by code_simp
  from falsy_success_not_counted [OF h1 h2, of demo_allowed curious_log stable_indexer] h1 h2 run
  show ?thesis by blast
qed

subsection \<open>Dwell times and profiled rooms\<close>

lemma filter_map_filter:
  assumes "\<And>x y. f x = Some y \<Longrightarrow> P y = Q x"
  shows "filter P (List.map_filter f xs) = List.map_filter f (filter Q xs)"
  using assms by (induction xs) (auto split: option.splits)

lemma clip_expected:
  "clip 0 240 (of_int (snd b - snd a) / 60) = spec_dwell (a, b)"
  by (auto simp: clip_def spec_dwell_def Let_def min_def max_def)

lemma dwell_row_Some:
  "dwell_row (a, Some (snd b)) =
     Some \<lparr>v_event = fst a, v_epoch = snd a, v_dwell = spec_dwell (a, b)\<rparr>"
  by (simp add: dwell_row_def clip_expected del: of_int_diff)

lemma dwell_row_None: "dwell_row (a, None) = None"
  by (simp add: dwell_row_def)

lemma dwell_rows_after:
  "List.map_filter dwell_row (zip (a # s) (map (\<lambda>r. Some (snd r)) s @ [None])) =
     map (\<lambda>p. \<lparr>v_event = fst (fst p), v_epoch = snd (fst p), v_dwell = spec_dwell p\<rparr>) (zip (a # s) s)"
proof (induction s arbitrary: a)
  case Nil
  then show ?case by (simp add: dwell_row_None)
next
  case (Cons x xs)
  show ?case using Cons.IH [of x]
    by (simp add: dwell_row_Some)
qed

lemma dwell_rows_group:
  "List.map_filter dwell_row (zip s (map (\<lambda>r. Some (snd r)) (tl s) @ [None])) =
     map (\<lambda>p. \<lparr>v_event = fst (fst p), v_epoch = snd (fst p), v_dwell = spec_dwell p\<rparr>) (consecutive_pairs s)"
proof (cases s)
  case Nil
  then show ?thesis by (simp add: consecutive_pairs_def)
next
  case (Cons x xs)
  then show ?thesis using dwell_rows_after [of x xs]
    by (simp add: consecutive_pairs_def)
qed

lemma dwell_frame_group:
  assumes "dwell_frame isoparse df = Inr d"
  shows "\<exists>epochs. apply_iso_to_epoch isoparse (map timestamp df) = Inr epochs
           \<and> length epochs = length df
           \<and> (\<forall>u. filter (\<lambda>v. user_id (v_event v) = u) d =
                  map (\<lambda>p. \<lparr>v_event = fst (fst p), v_epoch = snd (fst p),
                             v_dwell = spec_dwell p\<rparr>)
                    (consecutive_pairs (spec_per_user_sequence u (zip df epochs))))"
proof -
  from assms obtain epochs where ep: "apply_iso_to_epoch isoparse (map timestamp df) = Inr epochs"
    by (auto simp: dwell_frame_def split: if_splits sum.splits)
  define s where "s = sort_values_user_epoch (zip df epochs)"
  define z where "z = zip s (groupby_shift_next (\<lambda>r. user_id (fst r)) snd s)"
  from assms ep have d: "d = List.map_filter dwell_row z"
    by (auto simp: dwell_frame_def Let_def s_def z_def split: if_splits)
  have len: "length epochs = length df"
    using apply_iso_to_epoch_length [OF ep] by simp
  have "filter (\<lambda>v. user_id (v_event v) = u) d =
          map (\<lambda>p. \<lparr>v_event = fst (fst p), v_epoch = snd (fst p),
                     v_dwell = spec_dwell p\<rparr>)
            (consecutive_pairs (spec_per_user_sequence u (zip df epochs)))" for u
  proof -
    have "filter (\<lambda>v. user_id (v_event v) = u) d =
            List.map_filter dwell_row (filter (\<lambda>x. user_id (fst (fst x)) = u) z)"
      unfolding d
      by (rule filter_map_filter) (auto simp: dwell_row_def split: option.splits)
    also have "filter (\<lambda>x. user_id (fst (fst x)) = u) z =
        (let g = filter (\<lambda>r. user_id (fst r) = u) s
         in zip g (map (\<lambda>r. Some (snd r)) (tl g) @ [None]))"
      unfolding z_def
      using groupby_shift_next_group [of "\<lambda>r. user_id (fst r)" u s snd] by simp
    also have "filter (\<lambda>r. user_id (fst r) = u) s = spec_per_user_sequence u (zip df epochs)"
      unfolding s_def spec_per_user_sequence_def by (rule sorted_frame_group)
    finally show ?thesis
      using dwell_rows_group [of "spec_per_user_sequence u (zip df epochs)"]
      by (simp add: Let_def)
  qed
  with ep len show ?thesis by blast
qed

text \<open>
  C3. For every event with a same-user successor in the per-user time-sorted sequence,
  the dwell of \<^verbatim>\<open>room_typing\<close> is the time until that successor in minutes, clipped
  to the interval from 0 to 240; the last event of each user has no row. A raw dwell of
  500 minutes is recorded as 240, one of -5 minutes as 0.
\<close>

theorem dwell_clipped_next_event:
  assumes "dwell_frame isoparse df = Inr d"
  shows "\<exists>epochs. apply_iso_to_epoch isoparse (map timestamp df) = Inr epochs
           \<and> length epochs = length df
           \<and> (\<forall>u. map (\<lambda>v. ((v_event v, v_epoch v), v_dwell v))
                       (filter (\<lambda>v. user_id (v_event v) = u) d) =
                     map (\<lambda>p. (fst p, spec_dwell p))
                       (consecutive_pairs (spec_per_user_sequence u (zip df epochs)))
                  \<and> map (\<lambda>v. (v_event v, v_epoch v))
                       (filter (\<lambda>v. user_id (v_event v) = u) d) =
                     butlast (spec_per_user_sequence u (zip df epochs)))
           \<and> clip 0 240 500 = 240 \<and> clip 0 240 (- 5) = 0"
proof -
  from dwell_frame_group [OF assms] obtain epochs where
    ep: "apply_iso_to_epoch isoparse (map timestamp df) = Inr epochs" and
    len: "length epochs = length df" and
    grp: "\<And>u. filter (\<lambda>v. user_id (v_event v) = u) d =
                  map (\<lambda>p. \<lparr>v_event = fst (fst p), v_epoch = snd (fst p),
                             v_dwell = spec_dwell p\<rparr>)
                    (consecutive_pairs (spec_per_user_sequence u (zip df epochs)))"
    by blast
  have a: "map (\<lambda>v. ((v_event v, v_epoch v), v_dwell v))
             (filter (\<lambda>v. user_id (v_event v) = u) d) =
           map (\<lambda>p. (fst p, spec_dwell p))
             (consecutive_pairs (spec_per_user_sequence u (zip df epochs)))" for u
    by (simp add: grp comp_def)
  have b: "map (\<lambda>v. (v_event v, v_epoch v)) (filter (\<lambda>v. user_id (v_event v) = u) d) =
           butlast (spec_per_user_sequence u (zip df epochs))" for u
    using consecutive_pairs_fst [of "spec_per_user_sequence u (zip df epochs)"]
    by (simp add: grp comp_def)
  have c: "clip 0 240 500 = 240 \<and> clip 0 240 (- 5) = 0"
    by (simp add: clip_def)
  from ep len a b c show ?thesis by blast
qed

theorem dwell_clipped_next_event_witness:
  "dwell_frame demo_isoparse room_log =
     Inr [\<lparr>v_event = mk_event ''U1'' ''R1'' ''2024-01-01T00:00:00'' None,
            v_epoch = 1704067200, v_dwell = 1\<rparr>,
          \<lparr>v_event = mk_event ''U1'' ''R2'' ''2024-01-01T00:01:00'' None,
            v_epoch = 1704067260, v_dwell = 14339 / 60\<rparr>,
          \<lparr>v_event = mk_event ''U2'' ''R3'' ''2024-01-01T00:00:00'' None,
            v_epoch = 1704067200, v_dwell = 240\<rparr>]
   \<and> (\<exists>epochs. apply_iso_to_epoch demo_isoparse (map timestamp room_log) = Inr epochs
          \<and> map (\<lambda>p. (fst p, spec_dwell p))
                (consecutive_pairs (spec_per_user_sequence ''U2'' (zip room_log epochs))) =
              [((mk_event ''U2'' ''R3'' ''2024-01-01T00:00:00'' None, 1704067200), 240)])"
proof -
  have run: "dwell_frame demo_isoparse room_log =
     Inr [\<lparr>v_event = mk_event ''U1'' ''R1'' ''2024-01-01T00:00:00'' None,
            v_epoch = 1704067200, v_dwell = 1\<rparr>,
          \<lparr>v_event = mk_event ''U1'' ''R2'' ''2024-01-01T00:01:00'' None,
            v_epoch = 1704067260, v_dwell = 14339 / 60\<rparr>,
          \<lparr>v_event = mk_event ''U2'' ''R3'' ''2024-01-01T00:00:00'' None,
            v_epoch = 1704067200, v_dwell = 240\<rparr>]"
    by code_simp
  from dwell_clipped_next_event [OF run] obtain epochs where
    ep: "apply_iso_to_epoch demo_isoparse (map timestamp room_log) = Inr epochs" and
    grp: "map (\<lambda>v. ((v_event v, v_epoch v), v_dwell v))
            (filter (\<lambda>v. user_id (v_event v) = ''U2'')
               [\<lparr>v_event = mk_event ''U1'' ''R1'' ''2024-01-01T00:00:00'' None,
                  v_epoch = 1704067200, v_dwell = 1\<rparr>,
                \<lparr>v_event = mk_event ''U1'' ''R2'' ''2024-01-01T00:01:00'' None,
                  v_epoch = 1704067260, v_dwell = 14339 / 60\<rparr>,
                \<lparr>v_event = mk_event ''U2'' ''R3'' ''2024-01-01T00:00:00'' None,
                  v_epoch = 1704067200, v_dwell = 240\<rparr>]) =
          map (\<lambda>p. (fst p, spec_dwell p))
            (consecutive_pairs (spec_per_user_sequence ''U2'' (zip room_log epochs)))"
    by blast
  from grp have eq: "map (\<lambda>p. (fst p, spec_dwell p))
                (consecutive_pairs (spec_per_user_sequence ''U2'' (zip room_log epochs))) =
              [((mk_event ''U2'' ''R3'' ''2024-01-01T00:00:00'' None, 1704067200), 240)]"
    by (simp add: mk_event_def)
  show ?thesis
    by (rule conjI [OF run]) (rule exI [of _ epochs], rule conjI [OF ep eq])
qed

lemma room_typing_rooms:
  assumes "descending_indexer indexer"
    and "room_typing isoparse to_hour indexer df = Inr out"
  shows "\<exists>d. dwell_frame isoparse df = Inr d
           \<and> set (map rp_room_id out) = (\<lambda>v. room_id (v_event v)) ` set d"
proof -
  from assms(2) obtain d hour where d: "dwell_frame isoparse df = Inr d"
    and hour: "to_hour (map (\<lambda>v. timestamp (v_event v)) d) = Inr hour"
    by (auto simp: room_typing_def split: sum.splits)
  define agg where "agg = map (\<lambda>room.
                       (let g = filter (\<lambda>v. room_id (v_event v) = room) d
                        in \<lparr>rp_room_id = room,
                            visits = length g,
                            median_dwell_mins = median (map v_dwell g),
                            label = label_row (median (map v_dwell g))
                                      (hour_count (zip d hour) room)\<rparr>))
                     (groupby_keys (\<lambda>v. room_id (v_event v)) d)"
  from assms(2) d hour have out: "out = sort_values_desc indexer visits agg"
    by (simp add: room_typing_def agg_def)
  have "map rp_room_id agg = groupby_keys (\<lambda>v. room_id (v_event v)) d"
    by (simp add: agg_def Let_def comp_def)
  then have "rp_room_id ` set agg = (\<lambda>v. room_id (v_event v)) ` set d"
    by (metis (no_types) groupby_keys_def list.set_map set_remdups set_sort)
  with out d show ?thesis
    by (simp add: indexer_set [OF assms(1)])
qed

text \<open>
  C8. A room all of whose events are the last event of their user in the per-user
  time-sorted sequence has no row in the result of \<^verbatim>\<open>room_typing\<close>.
\<close>

theorem room_of_last_events_excluded:
  assumes "descending_indexer indexer"
    and "room_typing isoparse to_hour indexer df = Inr out"
    and "apply_iso_to_epoch isoparse (map timestamp df) = Inr epochs"
    and "\<forall>e \<in> set df. \<forall>x \<in> set (butlast (spec_per_user_sequence (user_id e) (zip df epochs))).
           room_id (fst x) \<noteq> r"
  shows "r \<notin> set (map rp_room_id out)"
proof
  assume r: "r \<in> set (map rp_room_id out)"
  from room_typing_rooms [OF assms(1,2)] obtain d where
    d: "dwell_frame isoparse df = Inr d" and
    rooms: "set (map rp_room_id out) = (\<lambda>v. room_id (v_event v)) ` set d"
    by blast
  from r rooms obtain v where v: "v \<in> set d" "room_id (v_event v) = r"
    by auto
  define u where "u = user_id (v_event v)"
  from dwell_frame_group [OF d] assms(3)
  have grp: "filter (\<lambda>v. user_id (v_event v) = u) d =
          map (\<lambda>p. \<lparr>v_event = fst (fst p), v_epoch = snd (fst p),
                     v_dwell = spec_dwell p\<rparr>)
            (consecutive_pairs (spec_per_user_sequence u (zip df epochs)))"
    by auto
  have "map (\<lambda>v. (v_event v, v_epoch v)) (filter (\<lambda>v. user_id (v_event v) = u) d) =
          butlast (spec_per_user_sequence u (zip df epochs))"
    using consecutive_pairs_fst [of "spec_per_user_sequence u (zip df epochs)"]
    by (simp add: grp comp_def)
  moreover from v have "(v_event v, v_epoch v) \<in>
      set (map (\<lambda>v. (v_event v, v_epoch v)) (filter (\<lambda>v. user_id (v_event v) = u) d))"
    by (auto simp: u_def)
  ultimately have mem: "(v_event v, v_epoch v) \<in> set (butlast (spec_per_user_sequence u (zip df epochs)))"
    by simp
  then have "(v_event v, v_epoch v) \<in> set (zip df epochs)"
    by (auto simp: spec_per_user_sequence_def dest: in_set_butlastD)
  then have "v_event v \<in> set df" by (rule set_zip_leftD)
  with assms(4)
  have "\<forall>x \<in> set (butlast (spec_per_user_sequence u (zip df epochs))). room_id (fst x) \<noteq> r"
    unfolding u_def by blast
  with mem have "room_id (fst (v_event v, v_epoch v)) \<noteq> r" by blast
  with v(2) show False by simp
qed

theorem room_of_last_events_excluded_witness:
  "descending_indexer stable_indexer
   \<and> room_typing demo_isoparse demo_to_hour stable_indexer room_log =
       Inr [\<lparr>rp_room_id = ''R1'', visits = 1, median_dwell_mins = Some 1,
              label = ''Other/Office''\<rparr>,
            \<lparr>rp_room_id = ''R2'', visits = 1, median_dwell_mins = Some (14339 / 60),
              label = ''Security/Overnight/Server''\<rparr>,
            \<lparr>rp_room_id = ''R3'', visits = 1, median_dwell_mins = Some 240,
              label = ''Security/Overnight/Server''\<rparr>]
   \<and> ''R9'' \<in> set (map room_id room_log)
   \<and> ''R9'' \<notin> set (map rp_room_id
       [\<lparr>rp_room_id = ''R1'', visits = 1, median_dwell_mins = Some 1,
          label = ''Other/Office''\<rparr>,
        \<lparr>rp_room_id = ''R2'', visits = 1, median_dwell_mins = Some (14339 / 60),
          label = ''Security/Overnight/Server''\<rparr>,
        \<lparr>rp_room_id = ''R3'', visits = 1, median_dwell_mins = Some 240,
          label = ''Security/Overnight/Server''\<rparr>])"
proof -
  have run: "room_typing demo_isoparse demo_to_hour stable_indexer room_log =
       Inr [\<lparr>rp_room_id = ''R1'', visits = 1, median_dwell_mins = Some 1,
              label = ''Other/Office''\<rparr>,
            \<lparr>rp_room_id = ''R2'', visits = 1, median_dwell_mins = Some (14339 / 60),
              label = ''Security/Overnight/Server''\<rparr>,
            \<lparr>rp_room_id = ''R3'', visits = 1, median_dwell_mins = Some 240,
              label = ''Security/Overnight/Server''\<rparr>]"
    by code_simp
  have ep: "apply_iso_to_epoch demo_isoparse (map timestamp room_log) =
      Inr [1704097200, 1704067200, 1704081599, 1704067200, 1704067260]"
    by code_simp
  have last: "\<forall>e \<in> set room_log. \<forall>x \<in> set (butlast (spec_per_user_sequence (user_id e)
        (zip room_log [1704097200, 1704067200, 1704081599, 1704067200, 1704067260]))).
           room_id (fst x) \<noteq> ''R9''"
    by code_simp
  have mem: "''R9'' \<in> set (map room_id room_log)"
    by code_simp
  from room_of_last_events_excluded [OF stable_indexer_descending run ep last]
    stable_indexer_descending run mem
  show ?thesis by blast
qed

subsection \<open>Room labels\<close>

lemma last_match_wins_five:
  "spec_last_match_wins d [(p1, s1), (p2, s2), (p3, s3), (p4, s4), (p5, s5)] t =
     (if p5 t then s5 else if p4 t then s4 else if p3 t then s3
      else if p2 t then s2 else if p1 t then s1 else d)"
  by (simp add: spec_last_match_wins_def)

lemma label_row_last_match:
  "label_row m r_get = spec_last_match_wins ''Other/Office'' spec_labeling_rules (spec_traffic_of m r_get)"
  unfolding spec_labeling_rules_def last_match_wins_five
  by (simp add: label_row_def spec_traffic_of_def Let_def)

text \<open>
  C4. The label \<^verbatim>\<open>label_row\<close> gives a room is that of the last of the five rules, in
  their order, whose predicate holds for the room's median dwell and hour-bucket
  traffic, and "Other/Office" when none holds. A room with 10 visits in the hours 11 to
  13, none in the morning and evening hours, and a median dwell of 45 minutes is labelled
  "Conference/Meeting".
\<close>

theorem label_row_last_match_wins:
  "label_row m r_get = spec_last_match_wins ''Other/Office'' spec_labeling_rules (spec_traffic_of m r_get)
   \<and> ((\<Sum>h \<leftarrow> [11, 12, 13]. r_get h) = 10 \<and> (\<Sum>h \<leftarrow> [7, 8, 9]. r_get h) = 0
        \<and> (\<Sum>h \<leftarrow> [16, 17, 18, 19]. r_get h) = 0
      \<longrightarrow> label_row (Some 45) r_get = ''Conference/Meeting'')"
proof
  show "label_row m r_get =
      spec_last_match_wins ''Other/Office'' spec_labeling_rules (spec_traffic_of m r_get)"
    by (rule label_row_last_match)
next
  show "(\<Sum>h \<leftarrow> [11, 12, 13]. r_get h) = 10 \<and> (\<Sum>h \<leftarrow> [7, 8, 9]. r_get h) = 0
        \<and> (\<Sum>h \<leftarrow> [16, 17, 18, 19]. r_get h) = 0
      \<longrightarrow> label_row (Some 45) r_get = ''Conference/Meeting''"
    by (simp add: label_row_def Let_def flt_lt_def flt_ge_def flt_between_def)
qed

theorem label_row_last_match_wins_witness:
  "label_row (Some 45) (\<lambda>h. if h = 12 then 10 else 0) = ''Conference/Meeting''
   \<and> room_typing demo_isoparse demo_to_hour stable_indexer meeting_log =
       Inr [\<lparr>rp_room_id = ''R1'', visits = 10, median_dwell_mins = Some 45,
              label = ''Conference/Meeting''\<rparr>]
   \<and> map snd (filter (\<lambda>rule. fst rule (spec_traffic_of (Some 45) (\<lambda>h. if h = 12 then 30 else 0)))
        spec_labeling_rules) = [''Conference/Meeting'', ''Cafeteria'']
   \<and> label_row (Some 45) (\<lambda>h. if h = 12 then 30 else 0) = ''Cafeteria''"
proof -
  have a: "label_row (Some 45) (\<lambda>h. if h = 12 then 10 else 0) = ''Conference/Meeting''"
    using conjunct2 [OF label_row_last_match_wins [of "Some 45" "\<lambda>h. if h = 12 then 10 else 0"]]
    by simp
  have b: "room_typing demo_isoparse demo_to_hour stable_indexer meeting_log =
       Inr [\<lparr>rp_room_id = ''R1'', visits = 10, median_dwell_mins = Some 45,
              label = ''Conference/Meeting''\<rparr>]"
    by code_simp
  have c: "map snd (filter (\<lambda>rule. fst rule (spec_traffic_of (Some 45) (\<lambda>h. if h = 12 then 30 else 0)))
        spec_labeling_rules) = [''Conference/Meeting'', ''Cafeteria'']"
    by (simp add: spec_labeling_rules_def spec_traffic_of_def flt_lt_def flt_ge_def flt_between_def)
  have "spec_last_match_wins ''Other/Office'' spec_labeling_rules
      (spec_traffic_of (Some 45) (\<lambda>h. if h = 12 then 30 else 0)) = ''Cafeteria''"
    by (simp add: spec_last_match_wins_def spec_labeling_rules_def spec_traffic_of_def flt_lt_def flt_ge_def
        flt_between_def)
  with conjunct1 [OF label_row_last_match_wins [of "Some 45" "\<lambda>h. if h = 12 then 30 else 0"]]
  have d: "label_row (Some 45) (\<lambda>h. if h = 12 then 30 else 0) = ''Cafeteria''"
    by (rule trans)
  from a b c d show ?thesis by blast
qed

end
